theory Spec2Isabelle
  imports Main
begin

section \<open>Data model\<close>

text \<open>
  The types \<open>AreaDataProperty\<close> and \<open>AreaData\<close> are imported by
  \<open>UpdateAreaMapStorageCommand.ts\<close> from the map-editor library.  The command reads
  three fields of a property: \<open>id\<close>, \<open>ressourceUrl\<close> and \<open>serverData\<close>; every
  other field is carried along untouched and is kept here in one opaque component
  \<open>rest\<close>.  \<open>serverData\<close> is an opaque payload object, so the truthiness tests the
  code applies to it are presence tests.  \<open>ressourceUrl\<close> is an optional string; the
  test \<open>!ressourceUrl\<close> holds for \<open>undefined\<close> and for the empty string.
\<close>

datatype server_data = ServerData string

record area_data_property =
  prop_id :: string
  ressourceUrl :: "string option"
  serverData :: "server_data option"
  rest :: string

text \<open>
  \<open>AtLeast<AreaData, "id">\<close>: the identity is mandatory, the property list and the
  remaining fields (kept in \<open>others\<close>) are optional.
\<close>

record area_data =
  area_id :: string
  properties :: "area_data_property list option"
  others :: string

text \<open>
  \<open>gameMap.getGameMapAreas()\<close> may be undefined; when defined, \<open>getArea(id)\<close> yields
  the live area with that id, of which only the property list is read.
\<close>

type_synonym game_map_areas = "string \<rightharpoonup> area_data_property list"

record command =
  oldConfig :: area_data
  newConfig :: area_data
  gameMap :: "game_map_areas option"

datatype error = TypeError | RequestError string | RegistryError string

subsection \<open>Patch operations\<close>

datatype op_name = Add | Remove | Replace | Move | Copy | Test

text \<open>
  The value of an operation is cast to \<open>AreaDataProperty\<close> by the code.  \<open>NoValue\<close> is
  \<open>null\<close> or \<open>undefined\<close> (destructuring it raises a TypeError, and it is falsy),
  \<open>OtherValue\<close> is any other value that has no \<open>ressourceUrl\<close> member.
\<close>

datatype op_value = NoValue | OtherValue | PropertyValue area_data_property

record operation =
  op :: op_name
  path :: string
  opvalue :: op_value

subsection \<open>The two regular expressions\<close>

text \<open>
  \<open>new RegExp("^/properties/*")\<close>: the trailing \<open>/*\<close> is zero or more slashes, so the
  expression matches exactly the strings that begin with \<open>/properties\<close>.
\<close>

definition matches_properties :: "string \<Rightarrow> bool" where
  "matches_properties p = (take 11 p = ''/properties'')"

definition is_digit :: "char \<Rightarrow> bool" where
  "is_digit c = (c \<in> set ''0123456789'')"

definition digit_value :: "char \<Rightarrow> nat" where
  "digit_value c = of_char c - 48"

definition nat_of_digits :: "string \<Rightarrow> nat" where
  "nat_of_digits ds = foldl (\<lambda>a c. 10 * a + digit_value c) 0 ds"

text \<open>
  \<open>/^\/properties\/(\d+)\/*/\<close>: the string begins with \<open>/properties/\<close> followed by at
  least one digit; the group is the longest run of digits, read by \<open>Number\<close>.
\<close>

definition match_index :: "string \<Rightarrow> nat option" where
  "match_index p =
     (if take 12 p = ''/properties/'' then
        (let ds = takeWhile is_digit (drop 12 p)
         in if ds = [] then None else Some (nat_of_digits ds))
      else None)"

text \<open>
  \<open>jsonpatch.getValueByPointer(this.oldConfig, path)\<close>, specialised to this data
  model: a pointer \<open>/properties/n\<close> resolves to the \<open>n\<close>-th property of the old
  configuration, a dangling pointer to \<open>undefined\<close>, and any other pointer to a value
  that is not a property.
\<close>

definition getValueByPointer :: "area_data \<Rightarrow> string \<Rightarrow> op_value" where
  "getValueByPointer doc p =
     (if take 12 p = ''/properties/'' \<and> drop 12 p \<noteq> [] \<and> (\<forall>c \<in> set (drop 12 p). is_digit c) then
        (case properties doc of
           None \<Rightarrow> NoValue
         | Some ps \<Rightarrow>
             (let n = nat_of_digits (drop 12 p)
              in if n < length ps then PropertyValue (ps ! n) else NoValue))
      else OtherValue)"

section \<open>The synchronous pass over the patch\<close>

text \<open>
  \<open>execute\<close> starts from \<open>patch = jsonpatch.compare(this.oldConfig, this.newConfig)\<close>.
  The patch is an argument of the model: what follows holds for every list of
  operations, whatever the patch library produces.
\<close>

text \<open>
  Every call is wrapped in \<open>limit(...)\<close> and pushed on \<open>acc\<close>.  A create call carries
  the operation's own value object; a delete call carries the property read from the
  old configuration; an update call carries a reference to the object at index \<open>i\<close> of
  \<open>this.newConfig.properties\<close>, whose fields later iterations may still assign.
\<close>

datatype limited_call =
    PostCall string area_data_property
  | DeleteCall string area_data_property
  | PatchCall string nat

record reduce_state =
  this :: command
  acc :: "limited_call list"

text \<open>\<open>properties?.find((property) => property.id === id)\<close> followed by the assignment
  \<open>serverData = undefined\<close> on the object found.\<close>

fun clear_found :: "string \<Rightarrow> area_data_property list \<Rightarrow> area_data_property list" where
  "clear_found i [] = []"
| "clear_found i (p # ps) =
     (if prop_id p = i then p\<lparr>serverData := None\<rparr> # ps else p # clear_found i ps)"

definition set_properties :: "area_data_property list option \<Rightarrow> command \<Rightarrow> command" where
  "set_properties ps c = c\<lparr>newConfig := (newConfig c)\<lparr>properties := ps\<rparr>\<rparr>"

text \<open>The cached value: \<open>getGameMapAreas()?.getArea(oldConfig.id)?.properties.find(...)?.serverData\<close>.\<close>

definition cached_serverData :: "command \<Rightarrow> string \<Rightarrow> server_data option" where
  "cached_serverData c i =
     (case gameMap c of
        None \<Rightarrow> None
      | Some areas \<Rightarrow>
          (case areas (area_id (oldConfig c)) of
             None \<Rightarrow> None
           | Some cached \<Rightarrow>
               (case find (\<lambda>q. prop_id q = i) cached of
                  None \<Rightarrow> None
                | Some q \<Rightarrow> serverData q)))"

definition on_add :: "reduce_state \<Rightarrow> operation \<Rightarrow> error + reduce_state" where
  "on_add s x =
     (case opvalue x of
        NoValue \<Rightarrow> Inl TypeError
      | OtherValue \<Rightarrow> Inr s
      | PropertyValue v \<Rightarrow>
          (case ressourceUrl v of
             None \<Rightarrow> Inr s
           | Some url \<Rightarrow>
               if url = [] then Inr s
               else Inr \<lparr>this = set_properties
                                 (map_option (clear_found (prop_id v)) (properties (newConfig (this s))))
                                 (this s),
                        acc = acc s @ [PostCall url (v\<lparr>serverData := None\<rparr>)]\<rparr>))"

definition on_remove :: "reduce_state \<Rightarrow> operation \<Rightarrow> error + reduce_state" where
  "on_remove s x =
     (case getValueByPointer (oldConfig (this s)) (path x) of
        PropertyValue v \<Rightarrow>
          (case ressourceUrl v of
             None \<Rightarrow> Inr s
           | Some url \<Rightarrow>
               if url = [] then Inr s else Inr (s\<lparr>acc := acc s @ [DeleteCall url v]\<rparr>))
      | _ \<Rightarrow> Inr s)"

definition on_replace :: "reduce_state \<Rightarrow> operation \<Rightarrow> error + reduce_state" where
  "on_replace s x =
     (case match_index (path x) of
        None \<Rightarrow> Inr s
      | Some i \<Rightarrow>
          (case properties (newConfig (this s)) of
             None \<Rightarrow> Inr s
           | Some ps \<Rightarrow>
               if i < length ps then
                 (let property = (ps ! i)\<lparr>serverData := cached_serverData (this s) (prop_id (ps ! i))\<rparr>
                  in Inr \<lparr>this = set_properties (Some (ps[i := property])) (this s),
                          acc = acc s @
                            (case ressourceUrl property of
                               None \<Rightarrow> []
                             | Some url \<Rightarrow> if url = [] then [] else [PatchCall url i])\<rparr>)
               else Inl TypeError))"

text \<open>One iteration of the callback given to \<open>patch.reduce\<close>.\<close>

definition step :: "reduce_state \<Rightarrow> operation \<Rightarrow> error + reduce_state" where
  "step s x =
     (if op x = Add \<and> matches_properties (path x) then on_add s x
      else if op x = Remove \<and> matches_properties (path x) then on_remove s x
      else if op x = Replace \<and> matches_properties (path x) then on_replace s x
      else Inr s)"

text \<open>The reduction stops at the first exception; the calls pushed before it have
  already been handed to the limiter.\<close>

fun collect :: "reduce_state \<Rightarrow> operation list \<Rightarrow> reduce_state \<times> error option" where
  "collect s [] = (s, None)"
| "collect s (x # xs) =
     (case step s x of
        Inl e \<Rightarrow> (s, Some e)
      | Inr s' \<Rightarrow> collect s' xs)"

section \<open>Settling the calls\<close>

text \<open>
  What \<open>_axios\<close> does with one call: it raises, or it answers.  \<open>response.data\<close> is
  empty (falsy), or fails \<open>AreaDataProperty.safeParse\<close>, or parses to a property.  The
  answers to delete and update calls are not read.
\<close>

datatype response_data = EmptyData | Malformed | WellFormed area_data_property

datatype outcome = Raised error | Responded response_data

text \<open>
  The environment of one execution: the outcome of the \<open>i\<close>-th call pushed on \<open>acc\<close>,
  and the order in which the calls complete.  The calls named in \<open>order\<close> complete
  first, in that order; the calls it does not name complete after them in submission
  order, so that every call settles exactly once whatever \<open>order\<close> is.
\<close>

record environment =
  respond :: "nat \<Rightarrow> outcome"
  order :: "nat list"

definition completion_order :: "nat \<Rightarrow> nat list \<Rightarrow> nat list" where
  "completion_order n ord =
     (let first = remdups (filter (\<lambda>i. i < n) ord)
      in first @ filter (\<lambda>i. i \<notin> set first) [0..<n])"

text \<open>
  \<open>rejection\<close> is the state of \<open>Promise.all(promises)\<close>: it rejects with the first error
  raised, and the code after the \<open>await\<close> then runs on the configuration as it is at
  that moment; the other calls still settle afterwards.
\<close>

record settle_state =
  self :: command
  shouldNotifyUpdate :: bool
  rejection :: "(error \<times> area_data) option"

text \<open>The body of the create call after \<open>await _axios.post(...)\<close> has returned.\<close>

definition on_post_response :: "string \<Rightarrow> response_data \<Rightarrow> settle_state \<Rightarrow> settle_state" where
  "on_post_response i d st =
     (case d of
        EmptyData \<Rightarrow> st
      | Malformed \<Rightarrow> st
      | WellFormed dat \<Rightarrow>
          st\<lparr>shouldNotifyUpdate := True,
             self := set_properties
                       (map_option
                          (map (\<lambda>property.
                                  if prop_id property \<noteq> i \<or> serverData dat = None then property
                                  else dat))
                          (properties (newConfig (self st))))
                       (self st)\<rparr>)"

definition settle_one :: "limited_call \<Rightarrow> outcome \<Rightarrow> settle_state \<Rightarrow> settle_state" where
  "settle_one c out st =
     (case out of
        Raised e \<Rightarrow>
          (case rejection st of
             None \<Rightarrow> st\<lparr>rejection := Some (e, newConfig (self st))\<rparr>
           | Some _ \<Rightarrow> st)
      | Responded d \<Rightarrow>
          (case c of
             PostCall url v \<Rightarrow> on_post_response (prop_id v) d st
           | DeleteCall url v \<Rightarrow> st
           | PatchCall url i \<Rightarrow> st))"

definition settle_all :: "limited_call list \<Rightarrow> environment \<Rightarrow> settle_state \<Rightarrow> settle_state" where
  "settle_all calls env st =
     fold (\<lambda>i. settle_one (calls ! i) (respond env i))
          (completion_order (length calls) (order env)) st"

section \<open>execute\<close>

datatype http_method = POST | DELETE | PATCH

text \<open>
  The request a limited call sends.  The update call reads its body through the
  reference it holds, when the limiter runs it, which is after the synchronous pass.
\<close>

definition request_of ::
  "area_data \<Rightarrow> limited_call \<Rightarrow> http_method \<times> string \<times> area_data_property option" where
  "request_of cfg c =
     (case c of
        PostCall url v \<Rightarrow> (POST, url, Some v)
      | DeleteCall url v \<Rightarrow> (DELETE, url, Some v)
      | PatchCall url i \<Rightarrow>
          (PATCH, url,
           (case properties cfg of
              None \<Rightarrow> None
            | Some ps \<Rightarrow> if i < length ps then Some (ps ! i) else None)))"

text \<open>
  What one run of \<open>execute\<close> does: the calls it hands to the limiter and the requests
  they send, the command object once every call has settled, the value of
  \<open>shouldNotifyUpdate\<close> at that point, the error written by \<open>console.error\<close>, the
  message given to \<open>dispatchModifyAreaMessage\<close> (area id and property list), the
  configuration on which \<open>super.execute()\<close> is invoked (\<open>None\<close>: it is not invoked), and
  the exception \<open>execute\<close> itself throws.  When \<open>super.execute()\<close> is invoked, the promise
  returned by \<open>execute\<close> is the one \<open>super.execute()\<close> returns.
\<close>

record execution =
  scheduled :: "limited_call list"
  requests :: "(http_method \<times> string \<times> area_data_property option) list"
  final :: command
  shouldNotify :: bool
  consoleError :: "error option"
  notification :: "(string \<times> area_data_property list option) option"
  superExecute :: "area_data option"
  thrown :: "error option"

definition execute :: "command \<Rightarrow> operation list \<Rightarrow> environment \<Rightarrow> execution" where
  "execute c patch env =
     (let (s, err) = collect \<lparr>this = c, acc = []\<rparr> patch;
          st = settle_all (acc s) env
                 \<lparr>self = this s, shouldNotifyUpdate = False, rejection = None\<rparr>;
          base = \<lparr>scheduled = acc s,
                  requests = map (request_of (newConfig (this s))) (acc s),
                  final = self st,
                  shouldNotify = shouldNotifyUpdate st,
                  consoleError = None, notification = None, superExecute = None,
                  thrown = None\<rparr>
      in case err of
           Some e \<Rightarrow> base\<lparr>thrown := Some e\<rparr>
         | None \<Rightarrow>
             (case rejection st of
                None \<Rightarrow>
                  base\<lparr>notification :=
                         (if shouldNotifyUpdate st
                          then Some (area_id (newConfig (self st)), properties (newConfig (self st)))
                          else None),
                       superExecute := Some (newConfig (self st))\<rparr>
              | Some (e, cfg) \<Rightarrow>
                  base\<lparr>consoleError := Some e, superExecute := Some cfg\<rparr>))"

section \<open>Notions used to state the properties\<close>

text \<open>A property with its \<open>serverData\<close> left out: all its other fields.\<close>

definition bare :: "area_data_property \<Rightarrow> area_data_property" where
  "bare p = p\<lparr>serverData := None\<rparr>"


text \<open>Two command objects agree on everything but the property list of the new
  configuration.\<close>

definition same_frame :: "command \<Rightarrow> command \<Rightarrow> bool" where
  "same_frame c c' \<longleftrightarrow>
     oldConfig c' = oldConfig c \<and> gameMap c' = gameMap c \<and>
     area_id (newConfig c') = area_id (newConfig c) \<and> others (newConfig c') = others (newConfig c)"

section \<open>The administration controller\<close>

text \<open>
  \<open>AdminController.getRoomsList\<close> and \<open>AdminController.dispatchGlobalEvent\<close>.  A room
  client is given by what its callback receives for the one call made on it: an error
  (the call failed, or its deadline of one second passed) or a result.
\<close>

datatype service_error = DeadlineExceeded | Unavailable string

record room_description =
  roomId :: string
  nbUsers :: int











section \<open>The concurrency limiter\<close>

text \<open>
  The source creates the limiter with \<open>const limit = pLimit(10)\<close>, once for the module,
  and wraps every resource call in \<open>limit(...)\<close>.  The code behind \<open>pLimit\<close> is not among
  the source files; the width is.
\<close>

definition width :: nat where
  "width = 10"

text \<open>
  Modelled from the spec: the state of the ConcurrencyLimiter (the code of \<open>pLimit\<close> is
  missing).  Spec 4.2, step 5: some calls are in flight, the excess calls queue in
  submission order.  Calls are named by their submission number.
\<close>

record limiter =
  in_flight :: "nat list"
  queued :: "nat list"

definition idle :: limiter where
  "idle = \<lparr>in_flight = [], queued = []\<rparr>"

text \<open>
  Modelled from the spec: submitting a call to the ConcurrencyLimiter (the code of
  \<open>pLimit\<close> is missing).  Spec 4.2, step 5: at most \<open>width\<close> calls are in flight at once,
  excess calls queue in submission order.
\<close>

definition submit :: "nat \<Rightarrow> limiter \<Rightarrow> limiter" where
  "submit c l =
     (if length (in_flight l) < width then l\<lparr>in_flight := in_flight l @ [c]\<rparr>
      else l\<lparr>queued := queued l @ [c]\<rparr>)"

text \<open>
  Modelled from the spec: the completion of a running call (the code of \<open>pLimit\<close> is
  missing).  Spec 4.2, step 5: queued calls are released as running calls complete,
  first in, first out.
\<close>

definition complete :: "nat \<Rightarrow> limiter \<Rightarrow> limiter" where
  "complete c l =
     (if c \<in> set (in_flight l) then
        (case queued l of
           [] \<Rightarrow> l\<lparr>in_flight := remove1 c (in_flight l)\<rparr>
         | w # ws \<Rightarrow> \<lparr>in_flight = remove1 c (in_flight l) @ [w], queued = ws\<rparr>)
      else l)"

datatype limiter_event = Submit nat | Complete nat

text \<open>Modelled from the spec: a limiter going through submissions and completions in
  any order (the code of \<open>pLimit\<close> is missing).\<close>

fun run_limiter :: "limiter_event list \<Rightarrow> limiter \<Rightarrow> limiter" where
  "run_limiter [] l = l"
| "run_limiter (Submit c # es) l = run_limiter es (submit c l)"
| "run_limiter (Complete c # es) l = run_limiter es (complete c l)"

text \<open>Handing the calls pushed on \<open>acc\<close> to the limiter, in the order of the pushes.\<close>

definition admit :: "limited_call list \<Rightarrow> limiter" where
  "admit calls = fold submit [0..<length calls] idle"

section \<open>The diff\<close>

text \<open>
  The source calls \<open>jsonpatch.compare(this.oldConfig, this.newConfig)\<close>; the code of
  \<open>compare\<close> is not among the source files.  The paths of its operations on the
  properties collection are \<open>/properties/\<close> followed by the index in decimal.
\<close>

definition digit_char :: "nat \<Rightarrow> char" where
  "digit_char d = ''0123456789'' ! d"

fun digits_of :: "nat \<Rightarrow> string" where
  "digits_of n = (if n < 10 then [digit_char n] else digits_of (n div 10) @ [digit_char (n mod 10)])"

definition property_path :: "nat \<Rightarrow> string" where
  "property_path i = ''/properties/'' @ digits_of i"

definition property_list :: "area_data \<Rightarrow> area_data_property list" where
  "property_list cfg = (case properties cfg of None \<Rightarrow> [] | Some ps \<Rightarrow> ps)"

text \<open>
  Modelled from the spec: the AreaDiffEngine on two property lists (the code of
  \<open>jsonpatch.compare\<close> is missing).  Spec 4.1: the patch is over the properties
  collection, by position; a remove deletes a property present before but absent
  after, a replace changes a property present at the same slot in both with differing
  content, an add introduces a property not previously present; the property counts
  may differ.
\<close>

definition diff_properties ::
  "area_data_property list \<Rightarrow> area_data_property list \<Rightarrow> operation list" where
  "diff_properties old new =
     map (\<lambda>i. \<lparr>op = Remove, path = property_path i, opvalue = NoValue\<rparr>)
         (rev [length new..<length old]) @
     concat (map (\<lambda>i. if old ! i = new ! i then []
                       else [\<lparr>op = Replace, path = property_path i, opvalue = PropertyValue (new ! i)\<rparr>])
                 [0..<min (length old) (length new)]) @
     map (\<lambda>i. \<lparr>op = Add, path = property_path i, opvalue = PropertyValue (new ! i)\<rparr>)
         [length old..<length new]"

text \<open>Modelled from the spec: \<open>diff(previous, proposed)\<close> of spec 4.1 (the code of
  \<open>jsonpatch.compare\<close> is missing).\<close>

definition compare :: "area_data \<Rightarrow> area_data \<Rightarrow> operation list" where
  "compare previous proposed = diff_properties (property_list previous) (property_list proposed)"

text \<open>
  Modelled from the spec: re-applying one reported operation to a property list (the
  patch library's code is missing).  The index is read from the path as the source
  reads it, with \<open>match_index\<close>.
\<close>

definition applyOperation :: "operation \<Rightarrow> area_data_property list \<Rightarrow> area_data_property list" where
  "applyOperation x ps =
     (case match_index (path x) of
        None \<Rightarrow> ps
      | Some i \<Rightarrow>
          (case op x of
             Remove \<Rightarrow> take i ps @ drop (Suc i) ps
           | Replace \<Rightarrow> (case opvalue x of PropertyValue v \<Rightarrow> ps[i := v] | _ \<Rightarrow> ps)
           | Add \<Rightarrow> (case opvalue x of PropertyValue v \<Rightarrow> take i ps @ v # drop i ps | _ \<Rightarrow> ps)
           | _ \<Rightarrow> ps))"

text \<open>Modelled from the spec: re-applying the reported operations in order (spec 8,
  round-trip law; the patch library's code is missing).\<close>

definition applyPatch :: "operation list \<Rightarrow> area_data_property list \<Rightarrow> area_data_property list" where
  "applyPatch patch ps = fold applyOperation patch ps"

section \<open>Sample edits\<close>

text \<open>
  One resource-backed property is added to an area that had none.  The resource
  endpoint refuses the connection, or answers with the property as it stands (no
  \<open>serverData\<close>), or answers with a property that carries \<open>serverData\<close>.
\<close>

definition sample_property :: area_data_property where
  "sample_property =
     \<lparr>prop_id = ''p1'', ressourceUrl = Some ''https://r.example/p1'', serverData = None, rest = ''A''\<rparr>"

definition sample_answer :: area_data_property where
  "sample_answer =
     \<lparr>prop_id = ''p1'', ressourceUrl = Some ''https://r.example/p1'',
      serverData = Some (ServerData ''room-42''), rest = ''B''\<rparr>"

definition sample_command :: command where
  "sample_command =
     \<lparr>oldConfig = \<lparr>area_id = ''area'', properties = Some [], others = ''-''\<rparr>,
      newConfig = \<lparr>area_id = ''area'', properties = Some [sample_property], others = ''-''\<rparr>,
      gameMap = None\<rparr>"

definition sample_patch :: "operation list" where
  "sample_patch = [\<lparr>op = Add, path = ''/properties/0'', opvalue = PropertyValue sample_property\<rparr>]"

definition env_refused :: environment where
  "env_refused = \<lparr>respond = (\<lambda>i. Raised (RequestError ''ECONNREFUSED'')), order = []\<rparr>"

definition env_bare :: environment where
  "env_bare = \<lparr>respond = (\<lambda>i. Responded (WellFormed sample_property)), order = []\<rparr>"

definition env_answered :: environment where
  "env_answered = \<lparr>respond = (\<lambda>i. Responded (WellFormed sample_answer)), order = []\<rparr>"

text \<open>
  An edit of a field of \<open>p1\<close> other than its resource fields.  The live area holds
  \<open>p1\<close> with a fetched payload, at another position than the edited configuration.
\<close>

definition cached_property :: area_data_property where
  "cached_property = sample_property\<lparr>serverData := Some (ServerData ''fetched'')\<rparr>"

definition other_property :: area_data_property where
  "other_property =
     \<lparr>prop_id = ''p0'', ressourceUrl = None, serverData = Some (ServerData ''foreign''), rest = ''Z''\<rparr>"

definition edit_command :: command where
  "edit_command =
     \<lparr>oldConfig = \<lparr>area_id = ''area'', properties = Some [sample_property], others = ''-''\<rparr>,
      newConfig = \<lparr>area_id = ''area'', properties = Some [sample_property\<lparr>rest := ''A2''\<rparr>], others = ''-''\<rparr>,
      gameMap = Some [''area'' \<mapsto> [other_property, cached_property]]\<rparr>"

definition edit_operation :: operation where
  "edit_operation = \<lparr>op = Replace, path = ''/properties/0/rest'', opvalue = OtherValue\<rparr>"


text \<open>Five room servers: three answer, two pass their deadline.  Two of those that
  answer report the room \<open>lobby\<close>.\<close>

definition room :: "string \<Rightarrow> int \<Rightarrow> room_description" where
  "room r n = \<lparr>roomId = r, nbUsers = n\<rparr>"




section \<open>Properties\<close>

subsection \<open>The pass over the patch and the settling of the calls\<close>

lemma completion_order_set: "set (completion_order n ord) = {0..<n}"
  by (auto simp: completion_order_def Let_def)




lemma set_properties_frame [simp]:
  "oldConfig (set_properties ps c) = oldConfig c"
  "gameMap (set_properties ps c) = gameMap c"
  "area_id (newConfig (set_properties ps c)) = area_id (newConfig c)"
  "others (newConfig (set_properties ps c)) = others (newConfig c)"
  "properties (newConfig (set_properties ps c)) = ps"
  by (simp_all add: set_properties_def)

lemma step_frame: "step s x = Inr s' \<Longrightarrow> same_frame (this s) (this s')"
  by (auto simp: step_def on_add_def on_remove_def on_replace_def same_frame_def Let_def
      split: if_splits op_value.splits option.splits)

lemma same_frame_trans: "same_frame a b \<Longrightarrow> same_frame b c \<Longrightarrow> same_frame a c"
  by (simp add: same_frame_def)

lemma collect_frame: "collect s patch = (s', e) \<Longrightarrow> same_frame (this s) (this s')"
proof (induction patch arbitrary: s)
  case Nil then show ?case by (simp add: same_frame_def)
next
  case (Cons x xs)
  show ?case
  proof (cases "step s x")
    case (Inl a) with Cons.prems show ?thesis by (simp add: same_frame_def)
  next
    case (Inr s1)
    with Cons.prems have "collect s1 xs = (s', e)" by simp
    from Cons.IH[OF this] step_frame[OF Inr] show ?thesis by (rule same_frame_trans[rotated])
  qed
qed

lemma settle_one_frame: "same_frame (self st) (self (settle_one c out st))"
  by (auto simp: settle_one_def on_post_response_def same_frame_def
      split: outcome.splits option.splits limited_call.splits response_data.splits)

lemma fold_settle_frame:
  "same_frame (self st) (self (fold (\<lambda>i. settle_one (calls ! i) (respond env i)) is st))"
proof (induction "is" arbitrary: st)
  case Nil show ?case by (simp add: same_frame_def)
next
  case (Cons i "is")
  show ?case using settle_one_frame[of st "calls ! i" "respond env i"] Cons.IH[of "settle_one (calls ! i) (respond env i) st"]
    by (auto intro: same_frame_trans)
qed


lemma settle_one_flag:
  "shouldNotifyUpdate (settle_one c out st) \<longleftrightarrow>
     shouldNotifyUpdate st \<or> (\<exists>url v d. c = PostCall url v \<and> out = Responded (WellFormed d))"
  by (auto simp: settle_one_def on_post_response_def
      split: outcome.splits option.splits limited_call.splits response_data.splits)

lemma fold_settle_flag:
  "shouldNotifyUpdate (fold (\<lambda>i. settle_one (calls ! i) (respond env i)) is st) \<longleftrightarrow>
     shouldNotifyUpdate st \<or>
     (\<exists>i \<in> set is. \<exists>url v d. calls ! i = PostCall url v \<and> respond env i = Responded (WellFormed d))"
  by (induction "is" arbitrary: st) (auto simp: settle_one_flag)







lemma settle_all_flag:
  "shouldNotifyUpdate (settle_all calls env st) \<longleftrightarrow>
     shouldNotifyUpdate st \<or>
     (\<exists>i < length calls. \<exists>url v d. calls ! i = PostCall url v \<and> respond env i = Responded (WellFormed d))"
  by (simp add: settle_all_def fold_settle_flag completion_order_set Bex_def)

lemma scheduled_execute:
  "scheduled (execute c patch env) = acc (fst (collect \<lparr>this = c, acc = []\<rparr> patch))"
  by (simp add: execute_def Let_def split: prod.splits option.splits)

lemma thrown_execute:
  "thrown (execute c patch env) = snd (collect \<lparr>this = c, acc = []\<rparr> patch)"
  by (simp add: execute_def Let_def split: prod.splits option.splits)

lemma shouldNotify_execute:
  "shouldNotify (execute c patch env) =
     shouldNotifyUpdate (settle_all (scheduled (execute c patch env)) env
        \<lparr>self = this (fst (collect \<lparr>this = c, acc = []\<rparr> patch)), shouldNotifyUpdate = False, rejection = None\<rparr>)"
  by (simp add: execute_def Let_def split: prod.splits option.splits)

text \<open>
  Claim C2, as the code has it.  Once every scheduled call has settled,
  \<open>shouldNotifyUpdate\<close> is true exactly when some create call was answered with a
  well-formed body, whether or not that body carries \<open>serverData\<close>.  Calls that raise,
  empty and malformed bodies, and the answers to delete and update calls leave it as
  it is.
\<close>

theorem shouldNotify_iff:
  "shouldNotify (execute c patch env) \<longleftrightarrow>
     (\<exists>i < length (scheduled (execute c patch env)). \<exists>url v d.
        scheduled (execute c patch env) ! i = PostCall url v \<and>
        respond env i = Responded (WellFormed d))"
  unfolding shouldNotify_execute settle_all_flag by simp



subsection \<open>Calls that raise\<close>




lemmas sample_defs = sample_command_def sample_patch_def sample_property_def sample_answer_def
  env_refused_def env_bare_def env_answered_def

lemma sample_scheduled:
  "scheduled (execute sample_command sample_patch env) = [PostCall ''https://r.example/p1'' sample_property]"
  by (simp add: scheduled_execute sample_defs step_def on_add_def matches_properties_def)





text \<open>
  Claim C2 as stated fails: the only create call is answered with a well-formed body
  without \<open>serverData\<close>, and \<open>shouldNotifyUpdate\<close> is true.
\<close>

theorem bare_answer_sets_shouldNotify:
  "scheduled (execute sample_command sample_patch env_bare) =
     [PostCall ''https://r.example/p1'' sample_property] \<and>
   respond env_bare 0 = Responded (WellFormed sample_property) \<and>
   serverData sample_property = None \<and>
   shouldNotify (execute sample_command sample_patch env_bare)"
proof -
  have "shouldNotify (execute sample_command sample_patch env_bare)" by code_simp
  then show ?thesis by (simp add: sample_scheduled) (simp add: env_bare_def sample_property_def)
qed

theorem shouldNotify_iff_witness:
  "shouldNotify (execute sample_command sample_patch env_answered) \<and>
   \<not> shouldNotify (execute sample_command sample_patch env_refused)"
  using shouldNotify_iff[of sample_command sample_patch env_answered]
        shouldNotify_iff[of sample_command sample_patch env_refused]
  by (simp add: sample_scheduled) (simp add: env_answered_def env_refused_def)



subsection \<open>What a run leaves untouched\<close>

lemma final_execute:
  "final (execute c patch env) =
     self (settle_all (acc (fst (collect \<lparr>this = c, acc = []\<rparr> patch))) env
        \<lparr>self = this (fst (collect \<lparr>this = c, acc = []\<rparr> patch)), shouldNotifyUpdate = False, rejection = None\<rparr>)"
  by (simp add: execute_def Let_def split: prod.splits option.splits)

text \<open>
  Claim C8.  Once every call has settled, the old configuration and the live map are
  what they were before \<open>execute\<close>, and the new configuration differs from the
  proposed one in its property list at most.
\<close>

theorem execute_leaves_oldConfig:
  "oldConfig (final (execute c patch env)) = oldConfig c \<and>
   gameMap (final (execute c patch env)) = gameMap c \<and>
   area_id (newConfig (final (execute c patch env))) = area_id (newConfig c) \<and>
   others (newConfig (final (execute c patch env))) = others (newConfig c)"
proof -
  obtain s e where ce: "collect \<lparr>this = c, acc = []\<rparr> patch = (s, e)" by (cases "collect \<lparr>this = c, acc = []\<rparr> patch")
  from collect_frame[OF ce] have f1: "same_frame c (this s)" by simp
  have f2: "same_frame (this s) (final (execute c patch env))"
    unfolding final_execute settle_all_def ce
    using fold_settle_frame[of "\<lparr>self = this s, shouldNotifyUpdate = False, rejection = None\<rparr>" "acc s" env]
    by simp
  from same_frame_trans[OF f1 f2] show ?thesis by (simp add: same_frame_def)
qed

subsection \<open>The answer to a create call\<close>

lemma clear_found_length [simp]: "length (clear_found i ps) = length ps"
  by (induction ps) auto

lemma clear_found_bare: "map bare (clear_found i ps) = map bare ps"
  by (induction ps) (auto simp: bare_def)

lemma update_serverData_bare:
  "i < length ps \<Longrightarrow> map bare (ps[i := (ps ! i)\<lparr>serverData := sd\<rparr>]) = map bare ps"
  by (simp add: map_update bare_def list_eq_iff_nth_eq nth_list_update)

lemma step_bare:
  "step s x = Inr s' \<Longrightarrow>
     map_option (map bare) (properties (newConfig (this s'))) =
     map_option (map bare) (properties (newConfig (this s)))"
  by (auto simp: step_def on_add_def on_remove_def on_replace_def Let_def clear_found_bare
        update_serverData_bare option.map_comp comp_def
      split: if_splits op_value.splits option.splits)

lemma collect_bare:
  "collect s patch = (s', e) \<Longrightarrow>
     map_option (map bare) (properties (newConfig (this s'))) =
     map_option (map bare) (properties (newConfig (this s)))"
proof (induction patch arbitrary: s)
  case Nil then show ?case by simp
next
  case (Cons x xs)
  show ?case
  proof (cases "step s x")
    case (Inl a) with Cons.prems show ?thesis by simp
  next
    case (Inr s1)
    with Cons.prems have "collect s1 xs = (s', e)" by simp
    from Cons.IH[OF this] step_bare[OF Inr] show ?thesis by simp
  qed
qed







subsection \<open>The update call of a replace operation\<close>

lemma collect_append:
  "collect s (xs @ ys) =
     (case collect s xs of (s1, Some e) \<Rightarrow> (s1, Some e) | (s1, None) \<Rightarrow> collect s1 ys)"
  by (induction xs arbitrary: s) (auto split: sum.splits)

lemma collect_split:
  assumes "collect s (pre @ x # post) = (s', None)"
  obtains s1 s2 where "collect s pre = (s1, None)" and "step s1 x = Inr s2" and "collect s2 post = (s', None)"
proof -
  obtain s1 e1 where c1: "collect s pre = (s1, e1)" by (cases "collect s pre")
  with assms have e1: "e1 = None" by (cases e1) (auto simp: collect_append)
  with assms c1 have c2: "collect s1 (x # post) = (s', None)" by (simp add: collect_append)
  then obtain s2 where "step s1 x = Inr s2" and "collect s2 post = (s', None)"
    by (cases "step s1 x") auto
  with c1 e1 that show thesis by simp
qed

lemma cached_frame:
  assumes "same_frame a b"
  shows "cached_serverData b = cached_serverData a"
proof -
  from assms have o: "oldConfig b = oldConfig a" and g: "gameMap b = gameMap a"
    by (simp_all add: same_frame_def)
  show ?thesis by (rule ext) (simp only: cached_serverData_def o g)
qed

lemma matches_of_index: "match_index p = Some i \<Longrightarrow> matches_properties p"
proof -
  assume "match_index p = Some i"
  then have "take 12 p = ''/properties/''" by (auto simp: match_index_def split: if_splits)
  then have "take 11 (take 12 p) = ''/properties''" by simp
  then show ?thesis by (simp add: matches_properties_def)
qed

lemma clear_found_nth:
  "i < length ps \<Longrightarrow> prop_id (ps ! i) \<noteq> j \<Longrightarrow> clear_found j ps ! i = ps ! i"
proof (induction ps arbitrary: i)
  case Nil then show ?case by simp
next
  case (Cons p ps)
  then show ?case by (cases i) auto
qed

lemma step_acc_mono: "step s x = Inr s' \<Longrightarrow> set (acc s) \<subseteq> set (acc s')"
  by (auto simp: step_def on_add_def on_remove_def on_replace_def Let_def
      split: if_splits op_value.splits option.splits)

lemma collect_acc_mono: "collect s patch = (s', e) \<Longrightarrow> set (acc s) \<subseteq> set (acc s')"
proof (induction patch arbitrary: s)
  case Nil then show ?case by simp
next
  case (Cons x xs)
  show ?case
  proof (cases "step s x")
    case (Inl a) with Cons.prems show ?thesis by simp
  next
    case (Inr s1)
    with Cons.prems have "collect s1 xs = (s', e)" by simp
    from Cons.IH[OF this] step_acc_mono[OF Inr] show ?thesis by blast
  qed
qed

lemma step_keeps_target:
  assumes st: "step s y = Inr s'"
    and ps: "properties (newConfig (this s)) = Some qs" and i: "i < length qs" and t: "qs ! i = t"
    and sd: "serverData t = cached_serverData (this s) (prop_id t)"
    and na: "\<forall>v. op y = Add \<and> opvalue y = PropertyValue v \<longrightarrow> prop_id v \<noteq> prop_id t"
  shows "\<exists>qs'. properties (newConfig (this s')) = Some qs' \<and> i < length qs' \<and> qs' ! i = t"
proof (cases "op y")
  case Add
  then show ?thesis using st ps i t na
    by (auto simp: step_def on_add_def clear_found_nth split: if_splits op_value.splits option.splits)
next
  case Remove
  then show ?thesis using st ps i t
    by (auto simp: step_def on_remove_def split: if_splits op_value.splits option.splits)
next
  case Replace
  have self_upd: "t\<lparr>serverData := cached_serverData (this s) (prop_id t)\<rparr> = t"
    using sd by simp
  from Replace show ?thesis using st ps i t self_upd
    by (auto simp: step_def on_replace_def Let_def nth_list_update
        split: if_splits option.splits)
qed (use st ps i t in \<open>auto simp: step_def\<close>)

lemma collect_keeps_target:
  assumes "collect s post = (s', e)"
    and "properties (newConfig (this s)) = Some qs" and "i < length qs" and "qs ! i = t"
    and "serverData t = cached_serverData (this s) (prop_id t)"
    and "\<forall>y \<in> set post. \<forall>v. op y = Add \<and> opvalue y = PropertyValue v \<longrightarrow> prop_id v \<noteq> prop_id t"
  shows "\<exists>qs'. properties (newConfig (this s')) = Some qs' \<and> i < length qs' \<and> qs' ! i = t"
  using assms
proof (induction post arbitrary: s qs)
  case Nil then show ?case by simp
next
  case (Cons y ys)
  show ?case
  proof (cases "step s y")
    case (Inl a) with Cons.prems show ?thesis by simp
  next
    case (Inr s1)
    with Cons.prems(1) have c: "collect s1 ys = (s', e)" by simp
    from Cons.prems(6) have na: "\<forall>v. op y = Add \<and> opvalue y = PropertyValue v \<longrightarrow> prop_id v \<noteq> prop_id t"
      by simp
    from step_keeps_target[OF Inr Cons.prems(2,3,4,5) na]
    obtain qs1 where q1: "properties (newConfig (this s1)) = Some qs1" "i < length qs1" "qs1 ! i = t"
      by blast
    have "cached_serverData (this s1) = cached_serverData (this s)"
      by (rule cached_frame[OF step_frame[OF Inr]])
    with Cons.prems(5) have sd: "serverData t = cached_serverData (this s1) (prop_id t)" by simp
    from Cons.prems(6) have rest: "\<forall>y \<in> set ys. \<forall>v. op y = Add \<and> opvalue y = PropertyValue v \<longrightarrow> prop_id v \<noteq> prop_id t"
      by simp
    from Cons.IH[OF c q1 sd rest] show ?thesis .
  qed
qed

lemma serverData_update_bare:
  "bare p = bare q \<Longrightarrow> p\<lparr>serverData := sd\<rparr> = q\<lparr>serverData := sd\<rparr>"
  by (cases p, cases q) (simp add: bare_def)

lemma requests_execute:
  "requests (execute c patch env) =
     map (request_of (newConfig (this (fst (collect \<lparr>this = c, acc = []\<rparr> patch)))))
         (acc (fst (collect \<lparr>this = c, acc = []\<rparr> patch)))"
  by (simp add: execute_def Let_def split: prod.splits option.splits)

lemma find_distinct_id:
  "distinct (map prop_id cached) \<Longrightarrow> q \<in> set cached \<Longrightarrow>
     find (\<lambda>r. prop_id r = prop_id q) cached = Some q"
proof (induction cached)
  case Nil then show ?case by simp
next
  case (Cons a cached)
  then show ?case by (auto simp: image_iff)
qed

text \<open>
  Claim C5.  Let \<open>x\<close> be a replace operation on the property at index \<open>i\<close> of the
  proposed configuration, which has a non-empty \<open>ressourceUrl\<close>; let no later add
  operation carry the same id (ids are unique within a configuration); and let the
  live area, whose ids are distinct, hold a property \<open>q\<close> with that id, at whatever
  position.  Then the update request goes out with the proposed property whose
  \<open>serverData\<close> is that of \<open>q\<close>.
\<close>

theorem replace_repopulates_serverData:
  assumes "thrown (execute c (pre @ x # post) env) = None"
    and "op x = Replace" and "match_index (path x) = Some i"
    and "properties (newConfig c) = Some ps" and "i < length ps"
    and "ressourceUrl (ps ! i) = Some url" and "url \<noteq> []"
    and "\<forall>y \<in> set post. \<forall>v. op y = Add \<and> opvalue y = PropertyValue v \<longrightarrow> prop_id v \<noteq> prop_id (ps ! i)"
    and "gameMap c = Some areas" and "areas (area_id (oldConfig c)) = Some cached"
    and "distinct (map prop_id cached)" and "q \<in> set cached" and "prop_id q = prop_id (ps ! i)"
  shows "(PATCH, url, Some ((ps ! i)\<lparr>serverData := serverData q\<rparr>))
           \<in> set (requests (execute c (pre @ x # post) env))"
proof -
  let ?init = "\<lparr>this = c, acc = []\<rparr>"
  let ?pid = "prop_id (ps ! i)"
  obtain s' where ce: "collect ?init (pre @ x # post) = (s', None)"
    using assms(1) by (cases "collect ?init (pre @ x # post)") (simp add: thrown_execute)
  from collect_split[OF ce] obtain s1 s2 where
    c1: "collect ?init pre = (s1, None)" and sx: "step s1 x = Inr s2" and c2: "collect s2 post = (s', None)"
    by blast
  have f1: "same_frame c (this s1)" using collect_frame[OF c1] by simp
  have cs1: "cached_serverData (this s1) = cached_serverData c" by (rule cached_frame[OF f1])
  have cq: "cached_serverData c ?pid = serverData q"
    using assms(9-13) find_distinct_id[OF assms(11,12)] by (simp add: cached_serverData_def)
  from collect_bare[OF c1] assms(4)
  obtain qs where qs: "properties (newConfig (this s1)) = Some qs" and b: "map bare qs = map bare ps"
    by (cases "properties (newConfig (this s1))") auto
  from b have len: "length qs = length ps" by (metis length_map)
  have bi: "bare (qs ! i) = bare (ps ! i)" using b len assms(5) by (metis nth_map)
  then have "prop_id (bare (qs ! i)) = prop_id (bare (ps ! i))"
    and "ressourceUrl (bare (qs ! i)) = ressourceUrl (bare (ps ! i))" by simp_all
  then have idq: "prop_id (qs ! i) = ?pid" and urlq: "ressourceUrl (qs ! i) = Some url"
    using assms(6) by (simp_all add: bare_def)
  let ?t = "(ps ! i)\<lparr>serverData := serverData q\<rparr>"
  have tq: "(qs ! i)\<lparr>serverData := serverData q\<rparr> = ?t" by (rule serverData_update_bare[OF bi])
  have mpx: "matches_properties (path x)" by (rule matches_of_index[OF assms(3)])
  have s2: "s2 = \<lparr>this = set_properties (Some (qs[i := ?t])) (this s1), acc = acc s1 @ [PatchCall url i]\<rparr>"
    using sx assms(2,3,6,7) mpx qs len assms(5) idq urlq tq cs1 cq
    by (simp add: step_def on_replace_def Let_def)
  have p2: "properties (newConfig (this s2)) = Some (qs[i := ?t])" by (simp add: s2)
  have i2: "i < length (qs[i := ?t])" using len assms(5) by simp
  have t2: "qs[i := ?t] ! i = ?t" using len assms(5) by simp
  have f2: "same_frame c (this s2)" using same_frame_trans[OF f1 step_frame[OF sx]] .
  have sd2: "serverData ?t = cached_serverData (this s2) (prop_id ?t)"
    using cached_frame[OF f2] cq by simp
  have na: "\<forall>y \<in> set post. \<forall>v. op y = Add \<and> opvalue y = PropertyValue v \<longrightarrow> prop_id v \<noteq> prop_id ?t"
    using assms(8) by simp
  from collect_keeps_target[OF c2 p2 i2 t2 sd2 na]
  obtain qs' where q': "properties (newConfig (this s')) = Some qs'" "i < length qs'" "qs' ! i = ?t"
    by blast
  have "PatchCall url i \<in> set (acc s2)" by (simp add: s2)
  with collect_acc_mono[OF c2] have mem: "PatchCall url i \<in> set (acc s')" by blast
  have "request_of (newConfig (this s')) (PatchCall url i) = (PATCH, url, Some ?t)"
    using q' by (simp add: request_of_def)
  with mem show ?thesis
    unfolding requests_execute ce fst_conv by (metis image_eqI set_map)
qed


theorem replace_repopulates_serverData_witness:
  "thrown (execute edit_command ([] @ edit_operation # []) env_refused) = None \<and>
   op edit_operation = Replace \<and> match_index (path edit_operation) = Some 0 \<and>
   cached_property \<in> set [other_property, cached_property] \<and>
   distinct (map prop_id [other_property, cached_property]) \<and>
   (PATCH, ''https://r.example/p1'',
      Some (sample_property\<lparr>rest := ''A2'', serverData := Some (ServerData ''fetched'')\<rparr>))
     \<in> set (requests (execute edit_command ([] @ edit_operation # []) env_refused))"
proof -
  have mi: "match_index (path edit_operation) = Some 0"
    by (simp add: edit_operation_def match_index_def is_digit_def nat_of_digits_def digit_value_def)
  have th: "thrown (execute edit_command ([] @ edit_operation # []) env_refused) = None"
    using mi by (simp add: thrown_execute step_def on_replace_def matches_of_index edit_command_def Let_def)
      (simp add: edit_operation_def)
  have o: "op edit_operation = Replace" by (simp add: edit_operation_def)
  have ps: "properties (newConfig edit_command) = Some [sample_property\<lparr>rest := ''A2''\<rparr>]"
    by (simp add: edit_command_def)
  have d: "distinct (map prop_id [other_property, cached_property])"
    by (simp add: other_property_def cached_property_def sample_property_def)
  have g: "gameMap edit_command = Some [''area'' \<mapsto> [other_property, cached_property]]"
    by (simp add: edit_command_def)
  have a: "[''area'' \<mapsto> [other_property, cached_property]] (area_id (oldConfig edit_command)) =
             Some [other_property, cached_property]"
    by (simp add: edit_command_def)
  from replace_repopulates_serverData[OF th o mi ps _ _ _ _ g a d, of "''https://r.example/p1''" cached_property]
  have "(PATCH, ''https://r.example/p1'',
      Some (([sample_property\<lparr>rest := ''A2''\<rparr>] ! 0)\<lparr>serverData := serverData cached_property\<rparr>))
     \<in> set (requests (execute edit_command ([] @ edit_operation # []) env_refused))"
    by (simp add: cached_property_def sample_property_def)
  then show ?thesis using th o mi d by (simp add: cached_property_def)
qed




subsection \<open>The administration controller\<close>













subsection \<open>The limiter\<close>

lemma submit_bound:
  "length (in_flight l) \<le> width \<Longrightarrow> length (in_flight (submit c l)) \<le> width"
  by (simp add: submit_def)

lemma complete_bound:
  "length (in_flight l) \<le> width \<Longrightarrow> length (in_flight (complete c l)) \<le> width"
  by (auto simp: complete_def length_remove1 split: list.splits dest: length_pos_if_in_set)

lemma run_limiter_bound:
  "length (in_flight l) \<le> width \<Longrightarrow> length (in_flight (run_limiter es l)) \<le> width"
proof (induction es l rule: run_limiter.induct)
  case (1 l) then show ?case by simp
next
  case (2 c es l) then show ?case by (simp add: submit_bound)
next
  case (3 c es l) then show ?case by (simp add: complete_bound)
qed

lemma fold_submit_upt:
  "fold submit [0..<n] idle = \<lparr>in_flight = [0..<min n width], queued = [width..<n]\<rparr>"
proof (induction n)
  case 0 show ?case by (simp add: idle_def)
next
  case (Suc n)
  have st: "fold submit [0..<Suc n] idle = submit n \<lparr>in_flight = [0..<min n width], queued = [width..<n]\<rparr>"
    using Suc by simp
  show ?case
  proof (cases "n < width")
    case True
    then have "min (Suc n) width = Suc n" "min n width = n" by simp_all
    with True show ?thesis unfolding st by (simp add: submit_def)
  next
    case False
    then have "min (Suc n) width = width" "min n width = width" by simp_all
    with False show ?thesis unfolding st by (simp add: submit_def)
  qed
qed

text \<open>
  Claim C9.  The calls of one edit are handed to the limiter in the order they were
  pushed.  Whatever submissions and completions follow, at most ten calls are in flight;
  after the hand-over the first ten calls are in flight and the others wait in
  submission order.
\<close>

theorem limiter_admits_at_most_ten:
  "length (in_flight (run_limiter es (admit calls))) \<le> 10 \<and>
   in_flight (admit calls) = [0..<min (length calls) 10] \<and>
   queued (admit calls) = [10..<length calls]"
proof -
  have "length (in_flight (admit calls)) \<le> width"
    by (simp add: admit_def fold_submit_upt)
  from run_limiter_bound[OF this] show ?thesis
    by (simp add: admit_def fold_submit_upt) (simp add: width_def)
qed

text \<open>Twenty-five calls: ten in flight, fifteen waiting in order; when call 3 and then
  call 0 complete, calls 10 and 11 are admitted, in that order.\<close>

theorem limiter_twenty_five_calls:
  "length (in_flight (run_limiter [Complete 3, Complete 0]
             (admit (replicate 25 (PostCall ''https://r.example/p1'' sample_property))))) \<le> 10 \<and>
   in_flight (admit (replicate 25 (PostCall ''https://r.example/p1'' sample_property))) = [0..<10] \<and>
   queued (admit (replicate 25 (PostCall ''https://r.example/p1'' sample_property))) = [10..<25] \<and>
   in_flight (run_limiter [Complete 3, Complete 0]
      (admit (replicate 25 (PostCall ''https://r.example/p1'' sample_property)))) =
     [1, 2, 4, 5, 6, 7, 8, 9, 10, 11]"
proof -
  let ?calls = "replicate 25 (PostCall ''https://r.example/p1'' sample_property)"
  have a: "admit ?calls = \<lparr>in_flight = [0..<10], queued = [10..<25]\<rparr>"
    by (simp add: admit_def fold_submit_upt width_def)
  have b: "[0..<10] = [0,1,2,3,4,5,6,7,8,9::nat]" by (simp add: upt_rec)
  have c: "[10..<25] = 10 # 11 # [12..<25::nat]" by (simp add: upt_rec)
  have "in_flight (run_limiter [Complete 3, Complete 0] (admit ?calls)) =
     [1, 2, 4, 5, 6, 7, 8, 9, 10, 11]"
    unfolding a b c by (simp add: complete_def)
  with limiter_admits_at_most_ten[of "[Complete 3, Complete 0]" ?calls] show ?thesis by simp
qed



subsection \<open>The diff\<close>

declare digits_of.simps [simp del]

lemma digit_char_is_digit: "d < 10 \<Longrightarrow> is_digit (digit_char d)"
  unfolding digit_char_def is_digit_def by (rule nth_mem) simp

lemma digit_value_digit_char: "d < 10 \<Longrightarrow> digit_value (digit_char d) = d"
proof -
  assume "d < 10"
  then have "d \<in> {0, 1, 2, 3, 4, 5, 6, 7, 8, 9}" by auto
  then show ?thesis by (auto simp: digit_char_def digit_value_def)
qed

lemma digits_of_digits: "\<forall>c \<in> set (digits_of n). is_digit c"
proof (induction n rule: digits_of.induct)
  case (1 n)
  show ?case
  proof (cases "n < 10")
    case True then show ?thesis by (simp add: digits_of.simps[of n] digit_char_is_digit)
  next
    case False
    with 1 show ?thesis by (simp add: digits_of.simps[of n] digit_char_is_digit)
  qed
qed

lemma digits_of_nonempty: "digits_of n \<noteq> []"
  by (simp add: digits_of.simps[of n])

lemma nat_of_digits_snoc: "nat_of_digits (ds @ [c]) = 10 * nat_of_digits ds + digit_value c"
  by (simp add: nat_of_digits_def)

lemma nat_of_digits_of: "nat_of_digits (digits_of n) = n"
proof (induction n rule: digits_of.induct)
  case (1 n)
  show ?case
  proof (cases "n < 10")
    case True
    then show ?thesis by (simp add: digits_of.simps[of n] nat_of_digits_def digit_value_digit_char)
  next
    case False
    with 1 show ?thesis
      by (simp add: digits_of.simps[of n] nat_of_digits_snoc digit_value_digit_char)
  qed
qed

lemma match_index_property_path: "match_index (property_path i) = Some i"
proof -
  have "takeWhile is_digit (digits_of i) = digits_of i"
    using digits_of_digits[of i] by simp
  then show ?thesis
    by (simp add: match_index_def property_path_def Let_def digits_of_nonempty nat_of_digits_of
        del: takeWhile_eq_all_conv)
qed

lemma apply_remove:
  "applyOperation \<lparr>op = Remove, path = property_path i, opvalue = v\<rparr> ps = take i ps @ drop (Suc i) ps"
  by (simp add: applyOperation_def match_index_property_path)

lemma apply_replace:
  "applyOperation \<lparr>op = Replace, path = property_path i, opvalue = PropertyValue v\<rparr> ps = ps[i := v]"
  by (simp add: applyOperation_def match_index_property_path)

lemma apply_add:
  "applyOperation \<lparr>op = Add, path = property_path i, opvalue = PropertyValue v\<rparr> ps =
     take i ps @ v # drop i ps"
  by (simp add: applyOperation_def match_index_property_path)

lemma removes_down:
  "length ps = n + k \<Longrightarrow>
     fold applyOperation
       (map (\<lambda>i. \<lparr>op = Remove, path = property_path i, opvalue = NoValue\<rparr>) (rev [n..<n + k])) ps =
     take n ps"
proof (induction k arbitrary: ps)
  case 0 then show ?case by simp
next
  case (Suc k)
  have "length (take (n + k) ps) = n + k" using Suc.prems by simp
  from Suc.IH[OF this] show ?case using Suc.prems by (simp add: apply_remove min_def)
qed

lemma replaces_up:
  assumes "length qs = c" and "c \<le> length new" and "\<forall>i < c. qs ! i = old ! i" and "j \<le> c"
  shows "fold applyOperation
           (concat (map (\<lambda>i. if old ! i = new ! i then []
                              else [\<lparr>op = Replace, path = property_path i, opvalue = PropertyValue (new ! i)\<rparr>])
                        [0..<j])) qs =
         take j new @ drop j qs"
  using assms(4)
proof (induction j)
  case 0 show ?case by simp
next
  case (Suc j)
  then have j: "j < c" and jc: "j \<le> c" by simp_all
  have jl: "j < length qs" "j < length new" using j assms(1,2) by simp_all
  have d: "drop j qs = qs ! j # drop (Suc j) qs" using jl by (simp add: Cons_nth_drop_Suc)
  have t: "take (Suc j) new = take j new @ [new ! j]" using jl by (simp add: take_Suc_conv_app_nth)
  have lt: "length (take j new) = j" using jl by simp
  show ?case
  proof (cases "old ! j = new ! j")
    case True
    then have "qs ! j = new ! j" using assms(3) j by simp
    then show ?thesis using Suc.IH[OF jc] True by (simp add: d t)
  next
    case False
    have "(take j new @ drop j qs)[j := new ! j] = take j new @ (new ! j # drop (Suc j) qs)"
      using lt by (simp add: d list_update_append)
    then show ?thesis using Suc.IH[OF jc] False by (simp add: apply_replace t)
  qed
qed

lemma adds_up:
  "m + k \<le> length new \<Longrightarrow>
     fold applyOperation
       (map (\<lambda>i. \<lparr>op = Add, path = property_path i, opvalue = PropertyValue (new ! i)\<rparr>) [m..<m + k])
       (take m new) =
     take (m + k) new"
proof (induction k)
  case 0 show ?case by simp
next
  case (Suc k)
  then have "m + k < length new" by simp
  then show ?case using Suc by (simp add: apply_add take_Suc_conv_app_nth min_def)
qed

lemma diff_properties_round_trip: "applyPatch (diff_properties old new) old = new"
proof -
  let ?m = "length old" and ?n = "length new"
  let ?c = "min ?m ?n"
  let ?R = "map (\<lambda>i. \<lparr>op = Remove, path = property_path i, opvalue = NoValue\<rparr>) (rev [?n..<?m])"
  let ?P = "concat (map (\<lambda>i. if old ! i = new ! i then []
                              else [\<lparr>op = Replace, path = property_path i, opvalue = PropertyValue (new ! i)\<rparr>])
                        [0..<?c])"
  let ?A = "map (\<lambda>i. \<lparr>op = Add, path = property_path i, opvalue = PropertyValue (new ! i)\<rparr>) [?m..<?n]"
  have r: "fold applyOperation ?R old = take ?c old"
  proof (cases "?n \<le> ?m")
    case True
    then obtain k where k: "?m = ?n + k" by (auto simp: le_iff_add)
    have "fold applyOperation
       (map (\<lambda>i. \<lparr>op = Remove, path = property_path i, opvalue = NoValue\<rparr>) (rev [?n..<?n + k])) old =
     take ?n old" by (rule removes_down) (simp add: k)
    then show ?thesis using True k by (simp add: min_def)
  next
    case False then show ?thesis by simp
  qed
  have p: "fold applyOperation ?P (take ?c old) = take ?c new"
    using replaces_up[of "take ?c old" ?c new old ?c] by simp
  have a: "fold applyOperation ?A (take ?c new) = new"
  proof (cases "?m \<le> ?n")
    case True
    then obtain k where k: "?n = ?m + k" by (auto simp: le_iff_add)
    have "fold applyOperation
       (map (\<lambda>i. \<lparr>op = Add, path = property_path i, opvalue = PropertyValue (new ! i)\<rparr>) [?m..<?m + k])
       (take ?m new) = take (?m + k) new" by (rule adds_up) (simp add: k)
    then show ?thesis using True k by (simp add: min_def)
  next
    case False then show ?thesis by simp
  qed
  show ?thesis
    unfolding applyPatch_def diff_properties_def fold_append comp_def r p a ..
qed

text \<open>
  Claim C6.  Applying the operations of the diff of two configurations, in order, to
  the property list of the previous one gives the property list of the proposed one.
\<close>

theorem diff_round_trip:
  "applyPatch (compare previous proposed) (property_list previous) = property_list proposed"
  by (simp add: compare_def diff_properties_round_trip)


text \<open>The edit of one field of \<open>p1\<close>: one replace operation, which gives the proposed
  list back.\<close>

theorem diff_round_trip_witness:
  "compare (oldConfig edit_command) (newConfig edit_command) =
     [\<lparr>op = Replace, path = ''/properties/0'',
       opvalue = PropertyValue (sample_property\<lparr>rest := ''A2''\<rparr>)\<rparr>] \<and>
   applyPatch (compare (oldConfig edit_command) (newConfig edit_command)) [sample_property] =
     [sample_property\<lparr>rest := ''A2''\<rparr>]"
  using diff_round_trip[of "oldConfig edit_command" "newConfig edit_command"]
  by (simp add: compare_def diff_properties_def property_list_def edit_command_def
      property_path_def digits_of.simps[of 0] digit_char_def sample_property_def)

end
